theory Spec2Isabelle
  imports Main
begin

section \<open>The cursor\<close>

text \<open>
  The parsers of \<^verbatim>\<open>run.py\<close> work on a seekable text stream (\<^verbatim>\<open>io.StringIO\<close>): the whole
  text and an offset into it. \<^verbatim>\<open>tell\<close> reads the offset, \<^verbatim>\<open>seek\<close> sets it, and
  \<^verbatim>\<open>read(n)\<close> returns at most \<open>n\<close> characters from the offset on (fewer at the end of the
  text, none beyond it) and moves the offset past what it returned. The stream object is
  mutated in place by the source; here every operation returns the updated cursor.
\<close>

record cursor =
  content :: string
  offset :: nat

definition tell :: "cursor \<Rightarrow> nat" where
  "tell stream = offset stream"

definition seek :: "nat \<Rightarrow> cursor \<Rightarrow> cursor" where
  "seek position stream = stream\<lparr>offset := position\<rparr>"

definition read :: "nat \<Rightarrow> cursor \<Rightarrow> string \<times> cursor" where
  "read n stream =
     (let chunk = take n (drop (offset stream) (content stream))
      in (chunk, stream\<lparr>offset := offset stream + length chunk\<rparr>))"

section \<open>Failures and parsers\<close>

text \<open>
  The two exceptions the parsers raise: \<^verbatim>\<open>SyntaxError\<close> (the spec's NoMatch) with its
  message, and \<^verbatim>\<open>EOFError\<close> (the spec's EndOfInput). A message is kept as the data the
  source formats into it:
  \<^item> \<open>Text m\<close> is \<^verbatim>\<open>SyntaxError(m)\<close> for a literal \<open>m\<close>;
  \<^item> \<open>Could_not_match c\<close> is \<^verbatim>\<open>"Could not match {} with the given predicate".format(repr(c))\<close>;
  \<^item> \<open>Expected_to_match c v\<close> is \<^verbatim>\<open>"Expected {} to match {}".format(c, v)\<close>;
  \<^item> \<open>Invalid_literal t\<close> is \<^verbatim>\<open>SyntaxError(e)\<close> for the \<^verbatim>\<open>ValueError\<close> \<open>e\<close> of \<^verbatim>\<open>int(t)\<close>.
\<close>

datatype message =
    Text string
  | Could_not_match string
  | Expected_to_match string string
  | Invalid_literal string

datatype failure = NoMatch message | EndOfInput

text \<open>
  A call of a parser either returns a value or raises, and leaves the cursor somewhere
  in both cases: an outcome. A call may also not return at all (the grammar below is
  recursive, and the repetitions loop): that is \<open>None\<close>.
\<close>

type_synonym 'a outcome = "(failure + 'a) \<times> cursor"

type_synonym 'a parser = "cursor \<Rightarrow> 'a outcome option"

text \<open>
  A callable on a stream in general, which may raise exceptions of any type \<open>'e\<close>; a
  parser is one that raises the two failures only.
\<close>

type_synonym ('e, 'a) raising = "cursor \<Rightarrow> (('e + 'a) \<times> cursor) option"

section \<open>The primitive matcher\<close>

text \<open>
  \<^verbatim>\<open>match(stream, predicate, rollback=False)\<close>. The character read is a string of length
  one, or the empty string at the end of the text; the predicate is applied to it before
  the test for emptiness. The flag is named \<open>peek\<close> here, \<open>rollback\<close> being the wrapper
  of the next section.
\<close>

definition match :: "cursor \<Rightarrow> (string \<Rightarrow> bool) \<Rightarrow> bool \<Rightarrow> string outcome" where
  "match stream predicate peek =
     (let position = tell stream;
          (character, stream') = read 1 stream
      in if predicate character
         then (Inr character, if peek then seek position stream' else stream')
         else if character \<noteq> []
         then (Inl (NoMatch (Could_not_match character)), seek position stream')
         else (Inl EndOfInput, stream'))"

section \<open>The rollback wrapper\<close>

text \<open>
  \<^verbatim>\<open>rollback(parser)\<close>: the offset is recorded, the parser is run, and only a
  \<^verbatim>\<open>SyntaxError\<close> is caught: the cursor is set back and the same exception is raised again.
\<close>

definition rollback :: "'a parser \<Rightarrow> 'a parser" where
  "rollback parser stream =
     (let start = tell stream
      in case parser stream of
           None \<Rightarrow> None
         | Some (Inr v, stream') \<Rightarrow> Some (Inr v, stream')
         | Some (Inl (NoMatch m), stream') \<Rightarrow> Some (Inl (NoMatch m), seek start stream')
         | Some (Inl EndOfInput, stream') \<Rightarrow> Some (Inl EndOfInput, stream'))"

section \<open>Character classes\<close>

text \<open>
  The predicates the lexical parsers hand to the matcher are \<^verbatim>\<open>str.isdigit\<close> and
  \<^verbatim>\<open>str.isspace\<close>: true of a string when it is not empty and each of its characters is in
  the class. A \<open>char\<close> is a code point below 256; in that range the digits of
  \<^verbatim>\<open>isdigit\<close> are \<^verbatim>\<open>0\<close> to \<^verbatim>\<open>9\<close> and the superscripts two, three and one (178, 179, 185),
  and the white space of \<^verbatim>\<open>isspace\<close> is 9 to 13, 28 to 32, 133 and 160.
\<close>

definition decimal_char :: "char \<Rightarrow> bool" where
  "decimal_char c = (48 \<le> (of_char c :: nat) \<and> (of_char c :: nat) \<le> 57)"

definition digit_char :: "char \<Rightarrow> bool" where
  "digit_char c = (decimal_char c \<or> (of_char c :: nat) \<in> {178, 179, 185})"

definition space_char :: "char \<Rightarrow> bool" where
  "space_char c =
     ((9 \<le> (of_char c :: nat) \<and> (of_char c :: nat) \<le> 13)
      \<or> (28 \<le> (of_char c :: nat) \<and> (of_char c :: nat) \<le> 32)
      \<or> (of_char c :: nat) \<in> {133, 160})"

definition isdigit :: "string \<Rightarrow> bool" where
  "isdigit a = (a \<noteq> [] \<and> list_all digit_char a)"

definition isspace :: "string \<Rightarrow> bool" where
  "isspace a = (a \<noteq> [] \<and> list_all space_char a)"

section \<open>Lexical parsers\<close>

subsection \<open>number\<close>

text \<open>
  The generator \<^verbatim>\<open>_result\<close> of \<^verbatim>\<open>number\<close> yields one digit, then loops: a further digit is
  yielded; \<^verbatim>\<open>EOFError\<close> ends the loop; \<^verbatim>\<open>SyntaxError\<close> ends it after a peeking match for
  white space, whose own exception is not caught. \<open>number_loop\<close> is that loop, with the
  characters yielded so far already joined; \<open>number_result\<close> is \<^verbatim>\<open>"".join(_result())\<close>.
\<close>

lemma match_isdigit_advances:
  assumes "match stream isdigit False = (Inr c, stream')"
  shows "length (content stream') - offset stream' < length (content stream) - offset stream"
proof -
  from assms have "take 1 (drop (offset stream) (content stream)) \<noteq> []"
    by (auto simp: match_def read_def Let_def isdigit_def split: if_splits)
  then have "offset stream < length (content stream)"
    by (cases "offset stream < length (content stream)") simp_all
  moreover from assms have "content stream' = content stream" "offset stream' = Suc (offset stream)"
    using \<open>offset stream < length (content stream)\<close>
    by (auto simp: match_def read_def Let_def split: if_splits)
  ultimately show ?thesis by simp
qed

function number_loop :: "string \<Rightarrow> cursor \<Rightarrow> string outcome" where
  "number_loop joined stream =
     (case match stream isdigit False of
        (Inr c, stream') \<Rightarrow> number_loop (joined @ c) stream'
      | (Inl EndOfInput, stream') \<Rightarrow> (Inr joined, stream')
      | (Inl (NoMatch m), stream') \<Rightarrow>
          (case match stream' isspace True of
             (Inr c, stream'') \<Rightarrow> (Inr joined, stream'')
           | (Inl e, stream'') \<Rightarrow> (Inl e, stream'')))"
  by pat_completeness auto
termination
  by (relation "measure (\<lambda>(joined, stream). length (content stream) - offset stream)")
     (auto dest: match_isdigit_advances [OF sym])

declare number_loop.simps [simp del]

definition number_result :: "cursor \<Rightarrow> string outcome" where
  "number_result stream =
     (case match stream isdigit False of
        (Inl e, stream') \<Rightarrow> (Inl e, stream')
      | (Inr c, stream') \<Rightarrow> number_loop c stream')"

text \<open>
  \<^verbatim>\<open>int(t)\<close> of a string of digits in the sense above: the value in base ten when every
  character is one of \<^verbatim>\<open>0\<close> to \<^verbatim>\<open>9\<close>, a \<^verbatim>\<open>ValueError\<close> otherwise (a superscript digit), which
  the parser turns into a \<^verbatim>\<open>SyntaxError\<close>.
\<close>

definition int_of_decimal :: "string \<Rightarrow> int" where
  "int_of_decimal t = foldl (\<lambda>n c. 10 * n + (int (of_char c) - 48)) 0 t"

definition number_parse :: "int parser" where
  "number_parse stream =
     Some (case number_result stream of
             (Inl e, stream') \<Rightarrow> (Inl e, stream')
           | (Inr t, stream') \<Rightarrow>
               if list_all decimal_char t then (Inr (int_of_decimal t), stream')
               else (Inl (NoMatch (Invalid_literal t)), stream'))"

definition number :: "int parser" where
  "number = rollback number_parse"

subsection \<open>keyword\<close>

definition keyword_parse :: "string \<Rightarrow> string parser" where
  "keyword_parse v stream =
     (let (content, stream') = read (length v) stream
      in if v = content then Some (Inr v, stream')
         else Some (Inl (NoMatch (Expected_to_match content v)), stream'))"

definition keyword :: "string \<Rightarrow> string parser" where
  "keyword v = rollback (keyword_parse v)"

subsection \<open>whitespace\<close>

text \<open>
  The generator of \<^verbatim>\<open>whitespace(minimum_count)\<close> first yields \<^verbatim>\<open>minimum_count\<close> matches of
  white space, any exception among them becoming
  \<^verbatim>\<open>SyntaxError("Not enough whitespace to match.")\<close> (\<open>whitespace_required\<close>; a count that is
  not positive asks for none), then yields further matches until the first exception of
  either kind (\<open>whitespace_loop\<close>).
\<close>

lemma match_isspace_advances:
  assumes "match stream isspace False = (Inr c, stream')"
  shows "length (content stream') - offset stream' < length (content stream) - offset stream"
proof -
  from assms have "take 1 (drop (offset stream) (content stream)) \<noteq> []"
    by (auto simp: match_def read_def Let_def isspace_def split: if_splits)
  then have "offset stream < length (content stream)"
    by (cases "offset stream < length (content stream)") simp_all
  moreover from assms have "content stream' = content stream" "offset stream' = Suc (offset stream)"
    using \<open>offset stream < length (content stream)\<close>
    by (auto simp: match_def read_def Let_def split: if_splits)
  ultimately show ?thesis by simp
qed

fun whitespace_required :: "nat \<Rightarrow> string \<Rightarrow> cursor \<Rightarrow> string outcome" where
  "whitespace_required 0 joined stream = (Inr joined, stream)"
| "whitespace_required (Suc n) joined stream =
     (case match stream isspace False of
        (Inr c, stream') \<Rightarrow> whitespace_required n (joined @ c) stream'
      | (Inl e, stream') \<Rightarrow> (Inl (NoMatch (Text ''Not enough whitespace to match.'')), stream'))"

function whitespace_loop :: "string \<Rightarrow> cursor \<Rightarrow> string outcome" where
  "whitespace_loop joined stream =
     (case match stream isspace False of
        (Inr c, stream') \<Rightarrow> whitespace_loop (joined @ c) stream'
      | (Inl e, stream') \<Rightarrow> (Inr joined, stream'))"
  by pat_completeness auto
termination
  by (relation "measure (\<lambda>(joined, stream). length (content stream) - offset stream)")
     (auto dest: match_isspace_advances [OF sym])

declare whitespace_loop.simps [simp del]

definition whitespace_parse :: "nat \<Rightarrow> string parser" where
  "whitespace_parse minimum_count stream =
     Some (case whitespace_required minimum_count [] stream of
             (Inl e, stream') \<Rightarrow> (Inl e, stream')
           | (Inr joined, stream') \<Rightarrow> whitespace_loop joined stream')"

definition whitespace :: "nat \<Rightarrow> string parser" where
  "whitespace minimum_count = rollback (whitespace_parse minimum_count)"

section \<open>Combinators\<close>

text \<open>
  \<^verbatim>\<open>concatenation(*parsers)\<close> runs the parsers in order on the one stream and returns the
  list of their results; an exception of any of them ends the call as it is, the cursor
  staying where that parser left it.
\<close>

fun concatenation :: "'a parser list \<Rightarrow> 'a list parser" where
  "concatenation [] stream = Some (Inr [], stream)"
| "concatenation (parser # parsers) stream =
     (case parser stream of
        None \<Rightarrow> None
      | Some (Inl e, stream') \<Rightarrow> Some (Inl e, stream')
      | Some (Inr v, stream') \<Rightarrow>
          (case concatenation parsers stream' of
             None \<Rightarrow> None
           | Some (Inl e, stream'') \<Rightarrow> Some (Inl e, stream'')
           | Some (Inr vs, stream'') \<Rightarrow> Some (Inr (v # vs), stream'')))"

text \<open>
  \<^verbatim>\<open>alternation(*parsers)\<close> returns the result of the first parser that does not raise; the
  bare \<^verbatim>\<open>except\<close> swallows every exception, of whatever type, and the loop goes on to the
  next parser, on the stream as it then is. With no parser left it raises
  \<^verbatim>\<open>SyntaxError("Exhausted all parsers")\<close>.
\<close>

fun alternation :: "('e, 'a) raising list \<Rightarrow> 'a parser" where
  "alternation [] stream = Some (Inl (NoMatch (Text ''Exhausted all parsers'')), stream)"
| "alternation (parser # parsers) stream =
     (case parser stream of
        None \<Rightarrow> None
      | Some (Inr v, stream') \<Rightarrow> Some (Inr v, stream')
      | Some (Inl e, stream') \<Rightarrow> alternation parsers stream')"

text \<open>
  \<^verbatim>\<open>zero_or_more(parser)\<close> collects the results of the parser in a list until the parser
  raises \<^verbatim>\<open>SyntaxError\<close>; \<^verbatim>\<open>EOFError\<close> is not caught. The loop has no bound of its own:
  with a parser that always succeeds it never ends.
\<close>

partial_function (option) zero_or_more_loop ::
    "'a parser \<Rightarrow> 'a list \<Rightarrow> cursor \<Rightarrow> 'a list outcome option" where
  "zero_or_more_loop parser result stream =
     (case parser stream of
        None \<Rightarrow> None
      | Some (Inr v, stream') \<Rightarrow> zero_or_more_loop parser (result @ [v]) stream'
      | Some (Inl (NoMatch m), stream') \<Rightarrow> Some (Inr result, stream')
      | Some (Inl EndOfInput, stream') \<Rightarrow> Some (Inl EndOfInput, stream'))"

definition zero_or_more :: "'a parser \<Rightarrow> 'a list parser" where
  "zero_or_more parser stream = zero_or_more_loop parser [] stream"

text \<open>
  \<^verbatim>\<open>one_or_more(parser)\<close>: the function \<^verbatim>\<open>parse\<close> contains \<^verbatim>\<open>yield\<close>, so a call of it runs
  none of its body and returns a generator object, which holds the parser and refers to
  the stream. The body runs when the generator is consumed; \<open>list_generator\<close> is
  \<^verbatim>\<open>list(g)\<close> on the stream as it is at that moment: the loop counts and collects the
  results of the parser until the first exception of either kind, and raises
  \<^verbatim>\<open>SyntaxError("Expected one or more tokens")\<close> when the count is still zero.
\<close>

datatype 'a generator = Generator "'a parser"

definition one_or_more :: "'a parser \<Rightarrow> 'a generator parser" where
  "one_or_more parser stream = Some (Inr (Generator parser), stream)"

partial_function (option) one_or_more_loop ::
    "'a parser \<Rightarrow> nat \<Rightarrow> 'a list \<Rightarrow> cursor \<Rightarrow> 'a list outcome option" where
  "one_or_more_loop parser count yielded stream =
     (case parser stream of
        None \<Rightarrow> None
      | Some (Inr v, stream') \<Rightarrow> one_or_more_loop parser (count + 1) (yielded @ [v]) stream'
      | Some (Inl e, stream') \<Rightarrow>
          if count = 0
          then Some (Inl (NoMatch (Text ''Expected one or more tokens'')), stream')
          else Some (Inr yielded, stream'))"

fun list_generator :: "'a generator \<Rightarrow> 'a list parser" where
  "list_generator (Generator parser) stream = one_or_more_loop parser 0 [] stream"

text \<open>
  \<^verbatim>\<open>maybe(parser)\<close> returns the result of the parser, or \<^verbatim>\<open>None\<close> when the parser raises
  either exception.
\<close>

definition maybe :: "'a parser \<Rightarrow> 'a option parser" where
  "maybe parser stream =
     (case parser stream of
        None \<Rightarrow> None
      | Some (Inr v, stream') \<Rightarrow> Some (Inr (Some v), stream')
      | Some (Inl e, stream') \<Rightarrow> Some (Inr None, stream'))"

section \<open>The expression grammar\<close>

text \<open>
  The results of the grammar are nested lists of integers and strings. The source is
  dynamically typed; here a result is a \<open>tree\<close>, and \<open>tagged\<close> wraps the result of a
  parser in the constructor of its kind, changing neither the cursor nor a failure.
\<close>

datatype tree = Num int | Str string | Seq "tree list"

definition tagged :: "('a \<Rightarrow> tree) \<Rightarrow> 'a parser \<Rightarrow> tree parser" where
  "tagged tag parser stream =
     (case parser stream of
        None \<Rightarrow> None
      | Some (Inl e, stream') \<Rightarrow> Some (Inl e, stream')
      | Some (Inr v, stream') \<Rightarrow> Some (Inr (tag v), stream'))"

text \<open>
  The interpreter bounds the depth of nested calls: a call that would exceed the recursion
  limit does not run and raises \<^verbatim>\<open>RecursionError\<close>, which is neither of the two failures.
  The only recursion of the program is the cycle of \<^verbatim>\<open>expression\<close>, \<^verbatim>\<open>sum\<close> and \<^verbatim>\<open>value\<close>, so
  the only callable of the grammar that can raise it to its caller is
  \<^verbatim>\<open>lambda e: expression(e)\<close>. \<open>lifted\<close> is a parser seen as a callable that may raise
  either.
\<close>

datatype raised = Failure failure | RecursionError

definition lifted :: "'a parser \<Rightarrow> (raised, 'a) raising" where
  "lifted parser stream =
     (case parser stream of
        None \<Rightarrow> None
      | Some (Inl e, stream') \<Rightarrow> Some (Inl (Failure e), stream')
      | Some (Inr v, stream') \<Rightarrow> Some (Inr v, stream'))"

text \<open>
  \<^verbatim>\<open>value\<close> refers to \<^verbatim>\<open>expression\<close> through \<^verbatim>\<open>lambda e: expression(e)\<close>, looked up when the
  alternative is called, and \<^verbatim>\<open>expression\<close> is \<^verbatim>\<open>sum\<close>, which is built from \<^verbatim>\<open>value\<close>.
  \<open>value_of\<close> and \<open>sum_of\<close> are the two rules with the callable that the name
  \<^verbatim>\<open>expression\<close> stands for as a parameter.
\<close>

definition value_of :: "(raised, tree) raising \<Rightarrow> tree parser" where
  "value_of expression = alternation [lifted (tagged Num number), (\<lambda>e. expression e)]"

definition sum_of :: "(raised, tree) raising \<Rightarrow> tree parser" where
  "sum_of expression =
     tagged Seq (concatenation
       [value_of expression,
        tagged Str (whitespace 0),
        tagged Seq (zero_or_more
          (tagged Seq (concatenation
             [tagged Str (alternation [keyword ''+'', keyword ''-'']),
              tagged Str (whitespace 0),
              value_of expression])))])"

text \<open>
  \<open>expression limit\<close> is a call of \<^verbatim>\<open>expression\<close> where the stack has room for \<open>limit\<close>
  calls of \<^verbatim>\<open>expression\<close> nested in one another, this one included: with no room the call
  raises \<^verbatim>\<open>RecursionError\<close> and the stream is untouched, otherwise it is \<^verbatim>\<open>sum\<close> with one
  call less of room for the calls that \<^verbatim>\<open>value\<close> makes. How many frames one round of the
  cycle takes depends on the interpreter; the bound is counted in calls of
  \<^verbatim>\<open>expression\<close>, and the properties below are proved for every bound. The calls that a
  round makes outside the cycle (the lexical parsers and the matcher under them) are
  taken to fit in the room of their round. A call from the main program is
  \<open>expression (Suc limit)\<close> for some \<open>limit\<close>.
\<close>

fun expression :: "nat \<Rightarrow> (raised, tree) raising" where
  "expression 0 stream = Some (Inl RecursionError, stream)"
| "expression (Suc limit) stream = lifted (sum_of (expression limit)) stream"

section \<open>Notions used in the statements and proofs\<close>

text \<open>
  \<open>repeats parser stream vs stream'\<close>: called again and again from \<open>stream\<close> on, the
  parser succeeds \<open>length vs\<close> times with the results \<open>vs\<close> and leaves the cursor at
  \<open>stream'\<close>.
\<close>

fun repeats :: "'a parser \<Rightarrow> cursor \<Rightarrow> 'a list \<Rightarrow> cursor \<Rightarrow> bool" where
  "repeats parser stream [] stream' = (stream' = stream)"
| "repeats parser stream (v # vs) stream' =
     (case parser stream of
        Some (Inr v', mid) \<Rightarrow> v' = v \<and> repeats parser mid vs stream'
      | _ \<Rightarrow> False)"

text \<open>
  The choice combinator as the specification words it: every candidate is tried on the
  stream as it was when the combinator was called, the first success is returned, and
  when all have failed the failure is the one of the source.
\<close>

fun alternation_same_offset :: "('e, 'a) raising list \<Rightarrow> 'a parser" where
  "alternation_same_offset [] stream =
     Some (Inl (NoMatch (Text ''Exhausted all parsers'')), stream)"
| "alternation_same_offset (parser # parsers) stream =
     (case parser stream of
        None \<Rightarrow> None
      | Some (Inr v, stream') \<Rightarrow> Some (Inr v, stream')
      | Some (Inl e, stream') \<Rightarrow> alternation_same_offset parsers stream)"

text \<open>
  \<open>restores parser stream\<close>: if the parser fails on \<open>stream\<close>, with either failure, it
  leaves the cursor as it found it.
\<close>

definition restores :: "('e, 'a) raising \<Rightarrow> cursor \<Rightarrow> bool" where
  "restores parser stream =
     (case parser stream of Some (Inl e, stream') \<Rightarrow> stream' = stream | _ \<Rightarrow> True)"

text \<open>
  \<open>stops parser result stream r\<close>: from \<open>stream\<close> on the parser succeeds some number
  of times and then fails, and \<open>r\<close> is what the loop of zero-or-more, entered with the
  results \<open>result\<close> already collected, makes of that failure.
\<close>

definition stops :: "'a parser \<Rightarrow> 'a list \<Rightarrow> cursor \<Rightarrow> 'a list outcome \<Rightarrow> bool" where
  "stops parser result stream r =
     (\<exists>vs final stream'. repeats parser stream vs final \<and>
        ((\<exists>m. parser final = Some (Inl (NoMatch m), stream') \<and> r = (Inr (result @ vs), stream'))
         \<or> (parser final = Some (Inl EndOfInput, stream') \<and> r = (Inl EndOfInput, stream'))))"

text \<open>
  Three properties of a callable, for the proof that the grammar always returns:
  \<open>forward\<close>, it never changes the text and never leaves the offset before the place where
  it was called; \<open>terminates\<close>, every call returns, with a result or an exception;
  \<open>progresses\<close>, a call that succeeds was made before the end of the text and leaves
  the offset further on.
\<close>

definition forward :: "('e, 'a) raising \<Rightarrow> bool" where
  "forward p = (\<forall>s r s'. p s = Some (r, s') \<longrightarrow> content s' = content s \<and> offset s \<le> offset s')"

definition terminates :: "('e, 'a) raising \<Rightarrow> bool" where
  "terminates p = (\<forall>s. \<exists>r. p s = Some r)"

definition progresses :: "('e, 'a) raising \<Rightarrow> bool" where
  "progresses p =
     (\<forall>s v s'. p s = Some (Inr v, s') \<longrightarrow>
        content s' = content s \<and> offset s < offset s' \<and> offset s < length (content s))"

text \<open>The definitions that evaluate the cursor, the character classes and the lexical parsers.\<close>

lemmas cursor_defs = match_def read_def tell_def seek_def Let_def

lemmas class_defs = isdigit_def isspace_def digit_char_def decimal_char_def space_char_def

lemmas lexical_defs = number_def number_parse_def number_result_def number_loop.simps
  int_of_decimal_def whitespace_def whitespace_parse_def whitespace_loop.simps
  keyword_def keyword_parse_def rollback_def

section \<open>Properties of the primitive matcher\<close>

text \<open>
  Claim C1. Whatever the predicate and the peek flag, a call of the primitive matcher that
  fails with NoMatch leaves the cursor offset where it was before the call: the
  character read is given back by the seek that precedes the raise.
\<close>

theorem match_NoMatch_offset:
  "match stream predicate peek = (Inl (NoMatch m), stream') \<Longrightarrow> offset stream' = offset stream"
  by (auto simp: cursor_defs split: if_splits)

theorem match_NoMatch_offset_witness:
  "match \<lparr>content = ''1a'', offset = 1\<rparr> isdigit False
     = (Inl (NoMatch (Could_not_match ''a'')), \<lparr>content = ''1a'', offset = 1\<rparr>)
   \<and> offset (snd (match \<lparr>content = ''1a'', offset = 1\<rparr> isdigit False)) = 1"
proof -
  have run: "match \<lparr>content = ''1a'', offset = 1\<rparr> isdigit False
     = (Inl (NoMatch (Could_not_match ''a'')), \<lparr>content = ''1a'', offset = 1\<rparr>)"
    by (simp add: cursor_defs class_defs)
  from match_NoMatch_offset [OF run] run show ?thesis by simp
qed

text \<open>
  Claim C8, as stated: for every predicate, the matcher called on a cursor at the end of
  the text fails with EndOfInput. It does not for a predicate that accepts the empty
  string: the source applies the predicate to the empty read first, and returns it.
  With \<^verbatim>\<open>lambda a: not a.isspace()\<close> on the empty text the call succeeds with \<^verbatim>\<open>''\<close>.
\<close>

theorem match_end_of_input_counterexample:
  "match \<lparr>content = [], offset = 0\<rparr> (Not \<circ> isspace) False
     = (Inr [], \<lparr>content = [], offset = 0\<rparr>)"
  by (simp add: cursor_defs class_defs)

text \<open>
  Claim C8, amended: for every predicate that rejects the empty string (as the character
  classes of the source all do), the matcher called on a cursor with nothing left to read
  fails with EndOfInput and leaves the cursor as it was, with or without the peek flag.
\<close>

theorem match_end_of_input:
  "length (content stream) \<le> offset stream \<Longrightarrow> \<not> predicate [] \<Longrightarrow>
   match stream predicate peek = (Inl EndOfInput, stream)"
  by (simp add: cursor_defs)

theorem match_end_of_input_witness:
  "match \<lparr>content = ''a1'', offset = 2\<rparr> isdigit False
     = (Inl EndOfInput, \<lparr>content = ''a1'', offset = 2\<rparr>)"
  using match_end_of_input [of "\<lparr>content = ''a1'', offset = 2\<rparr>" isdigit False]
  by (simp add: isdigit_def)

section \<open>Properties of the rollback wrapper\<close>

text \<open>
  Claim C2. For every parser and cursor: when the parser succeeds, the wrapped parser
  returns the same result and cursor; when it fails with NoMatch, the wrapped parser fails
  with the same NoMatch and the cursor is set back to the offset at the call; when it
  fails with EndOfInput, the wrapped parser fails with EndOfInput and the cursor stays
  where the parser left it.
\<close>

theorem rollback_behaviour:
  "(parser stream = Some (Inr v, stream') \<longrightarrow> rollback parser stream = Some (Inr v, stream'))
   \<and> (parser stream = Some (Inl (NoMatch m), stream') \<longrightarrow>
        rollback parser stream = Some (Inl (NoMatch m), stream'\<lparr>offset := offset stream\<rparr>))
   \<and> (parser stream = Some (Inl EndOfInput, stream') \<longrightarrow>
        rollback parser stream = Some (Inl EndOfInput, stream'))"
  by (simp add: rollback_def tell_def seek_def)

theorem rollback_behaviour_witness:
  "rollback (keyword_parse ''a'') \<lparr>content = ''ab'', offset = 0\<rparr>
       = Some (Inr ''a'', \<lparr>content = ''ab'', offset = 1\<rparr>)
   \<and> rollback (keyword_parse ''ac'') \<lparr>content = ''ab'', offset = 0\<rparr>
       = Some (Inl (NoMatch (Expected_to_match ''ab'' ''ac'')), \<lparr>content = ''ab'', offset = 0\<rparr>)
   \<and> rollback (concatenation [keyword ''a'', (\<lambda>s. Some (match s isdigit False))])
         \<lparr>content = ''a'', offset = 0\<rparr>
       = Some (Inl EndOfInput, \<lparr>content = ''a'', offset = 1\<rparr>)"
proof -
  let ?s = "\<lparr>content = ''ab'', offset = 0\<rparr>"
  let ?t = "\<lparr>content = ''a'', offset = 0\<rparr>"
  have ok: "keyword_parse ''a'' ?s = Some (Inr ''a'', \<lparr>content = ''ab'', offset = 1\<rparr>)"
    by (simp add: keyword_parse_def read_def Let_def)
  have no: "keyword_parse ''ac'' ?s
      = Some (Inl (NoMatch (Expected_to_match ''ab'' ''ac'')), \<lparr>content = ''ab'', offset = 2\<rparr>)"
    by (simp add: keyword_parse_def read_def Let_def)
  have eof: "concatenation [keyword ''a'', (\<lambda>s. Some (match s isdigit False))] ?t
      = Some (Inl EndOfInput, \<lparr>content = ''a'', offset = 1\<rparr>)"
    by (simp add: cursor_defs class_defs lexical_defs)
  from rollback_behaviour [of "keyword_parse ''a''" ?s "''a''" "\<lparr>content = ''ab'', offset = 1\<rparr>"]
    rollback_behaviour [of "keyword_parse ''ac''" ?s _ "\<lparr>content = ''ab'', offset = 2\<rparr>"
      "Expected_to_match ''ab'' ''ac''"]
    rollback_behaviour [of "concatenation [keyword ''a'', (\<lambda>s. Some (match s isdigit False))]"
      ?t _ "\<lparr>content = ''a'', offset = 1\<rparr>"]
    ok no eof
  show ?thesis by simp
qed

section \<open>Properties of the lexical parsers\<close>

text \<open>
  Claim C6. For every literal \<open>v\<close> and every cursor, the keyword parser either returns
  \<open>v\<close> with the offset moved forward by the length of \<open>v\<close> (when the text from the
  offset on starts with \<open>v\<close>), or fails with the NoMatch that carries what was read, which
  is shorter than \<open>v\<close> at the end of the text, and \<open>v\<close>, with the cursor as it was at the
  call.
\<close>

theorem keyword_atomic:
  "keyword v stream =
     (if take (length v) (drop (offset stream) (content stream)) = v
      then Some (Inr v, stream\<lparr>offset := offset stream + length v\<rparr>)
      else Some (Inl (NoMatch (Expected_to_match
                  (take (length v) (drop (offset stream) (content stream))) v)), stream))"
proof (cases "take (length v) (drop (offset stream) (content stream)) = v")
  case True
  then have "length (take (length v) (drop (offset stream) (content stream))) = length v"
    by simp
  with True show ?thesis
    by (simp add: keyword_def keyword_parse_def rollback_def read_def tell_def seek_def Let_def
        del: length_take)
next
  case False
  then show ?thesis
    by (auto simp: keyword_def keyword_parse_def rollback_def read_def tell_def seek_def Let_def)
qed

text \<open>
  Claim C5. On the text \<^verbatim>\<open>123+456\<close> from offset 0 the integer parser fails: the three
  digits are matched, the peeking match for white space at offset 3 raises NoMatch on \<^verbatim>\<open>+\<close>,
  nothing catches it, so the joined digits fail with it at offset 3, and the rollback
  wrapper sets the offset back to 0.
\<close>

theorem number_fails_before_operator:
  "match \<lparr>content = ''123+456'', offset = 3\<rparr> isspace True
     = (Inl (NoMatch (Could_not_match ''+'')), \<lparr>content = ''123+456'', offset = 3\<rparr>)
   \<and> number_result \<lparr>content = ''123+456'', offset = 0\<rparr>
     = (Inl (NoMatch (Could_not_match ''+'')), \<lparr>content = ''123+456'', offset = 3\<rparr>)
   \<and> number \<lparr>content = ''123+456'', offset = 0\<rparr>
     = Some (Inl (NoMatch (Could_not_match ''+'')), \<lparr>content = ''123+456'', offset = 0\<rparr>)"
  by (simp add: cursor_defs class_defs lexical_defs)

section \<open>Properties of the choice combinator\<close>

lemma alternation_restoring:
  "list_all (\<lambda>parser. restores parser stream) parsers \<Longrightarrow>
   alternation parsers stream = alternation_same_offset parsers stream"
proof (induction parsers)
  case Nil
  show ?case by simp
next
  case (Cons parser parsers)
  then show ?case
    by (auto simp: restores_def split: option.splits sum.splits)
qed

text \<open>
  Claim C7, as stated: the candidates are tried from the same starting offset and the
  first that succeeds gives the result. The combinator never seeks, so a candidate
  that fails after moving the cursor hands the moved cursor to the next one. On the text
  \<^verbatim>\<open>ac\<close> the sequence of the keywords \<^verbatim>\<open>a\<close> and \<^verbatim>\<open>b\<close> fails at offset 1; the sequence of the
  keyword \<^verbatim>\<open>a\<close> alone would succeed from offset 0, and does so in the specification's
  wording of the combinator, but is tried from offset 1 and fails: the choice fails.
\<close>

theorem alternation_same_offset_counterexample:
  "concatenation [keyword ''a''] \<lparr>content = ''ac'', offset = 0\<rparr>
     = Some (Inr [''a''], \<lparr>content = ''ac'', offset = 1\<rparr>)
   \<and> alternation_same_offset
        [concatenation [keyword ''a'', keyword ''b''], concatenation [keyword ''a'']]
        \<lparr>content = ''ac'', offset = 0\<rparr>
     = Some (Inr [''a''], \<lparr>content = ''ac'', offset = 1\<rparr>)
   \<and> alternation
        [concatenation [keyword ''a'', keyword ''b''], concatenation [keyword ''a'']]
        \<lparr>content = ''ac'', offset = 0\<rparr>
     = Some (Inl (NoMatch (Text ''Exhausted all parsers'')), \<lparr>content = ''ac'', offset = 1\<rparr>)"
  by (simp add: cursor_defs lexical_defs)

text \<open>
  Claim C7, amended: the choice combinator tries its candidates in order. If the first
  candidate succeeds, its result is the result of the choice, whatever the later ones
  would do. If it fails, with either failure, the failure is dropped and the remaining
  candidates are tried from the cursor as the failed one left it. With no candidate
  left the choice fails with NoMatch, \<^verbatim>\<open>Exhausted all parsers\<close>. When every candidate that
  fails on the starting cursor leaves it unchanged, this is the choice that tries each
  candidate from the same starting offset.
\<close>

theorem alternation_first_success:
  "(parser stream = Some (Inr v, stream') \<longrightarrow>
      alternation (parser # parsers) stream = Some (Inr v, stream'))
   \<and> (parser stream = Some (Inl e, stream') \<longrightarrow>
      alternation (parser # parsers) stream = alternation parsers stream')
   \<and> alternation [] stream = Some (Inl (NoMatch (Text ''Exhausted all parsers'')), stream)
   \<and> (list_all (\<lambda>parser. restores parser stream) parsers \<longrightarrow>
      alternation parsers stream = alternation_same_offset parsers stream)"
  by (simp add: alternation_restoring)

theorem alternation_first_success_witness:
  "keyword ''ab'' \<lparr>content = ''ab'', offset = 0\<rparr>
     = Some (Inr ''ab'', \<lparr>content = ''ab'', offset = 2\<rparr>)
   \<and> alternation [keyword ''a'', keyword ''ab''] \<lparr>content = ''ab'', offset = 0\<rparr>
     = Some (Inr ''a'', \<lparr>content = ''ab'', offset = 1\<rparr>)
   \<and> alternation [\<lambda>s. Some (match s isdigit False), \<lambda>s. Some (match s isspace False)]
        \<lparr>content = [], offset = 0\<rparr>
     = Some (Inl (NoMatch (Text ''Exhausted all parsers'')), \<lparr>content = [], offset = 0\<rparr>)
   \<and> alternation [keyword ''+'', keyword ''-''] \<lparr>content = ''*'', offset = 0\<rparr>
     = alternation_same_offset [keyword ''+'', keyword ''-''] \<lparr>content = ''*'', offset = 0\<rparr>
   \<and> alternation [keyword ''+'', keyword ''-''] \<lparr>content = ''*'', offset = 0\<rparr>
     = Some (Inl (NoMatch (Text ''Exhausted all parsers'')), \<lparr>content = ''*'', offset = 0\<rparr>)"
proof -
  let ?s = "\<lparr>content = ''ab'', offset = 0\<rparr>"
  let ?e = "\<lparr>content = [], offset = 0\<rparr>"
  let ?t = "\<lparr>content = ''*'', offset = 0\<rparr>"
  have a: "keyword ''a'' ?s = Some (Inr ''a'', \<lparr>content = ''ab'', offset = 1\<rparr>)"
    by (simp add: cursor_defs lexical_defs)
  have b: "keyword ''ab'' ?s = Some (Inr ''ab'', \<lparr>content = ''ab'', offset = 2\<rparr>)"
    by (simp add: cursor_defs lexical_defs)
  have n: "match ?e isdigit False = (Inl EndOfInput, ?e)"
    "alternation [\<lambda>s. Some (match s isspace False)] ?e
      = Some (Inl (NoMatch (Text ''Exhausted all parsers'')), ?e)"
    by (simp_all add: cursor_defs class_defs)
  have r: "list_all (\<lambda>parser. restores parser ?t) [keyword ''+'', keyword ''-'']"
    by (simp add: restores_def cursor_defs lexical_defs)
  have x: "alternation_same_offset [keyword ''+'', keyword ''-''] ?t
      = Some (Inl (NoMatch (Text ''Exhausted all parsers'')), ?t)"
    by (simp add: cursor_defs lexical_defs)
  from alternation_first_success [of "keyword ''a''" ?s "''a''" "\<lparr>content = ''ab'', offset = 1\<rparr>"
      "[keyword ''ab'']"]
    alternation_first_success [of "\<lambda>s. Some (match s isdigit False)" ?e _ ?e
      "[\<lambda>s. Some (match s isspace False)]" EndOfInput]
    alternation_first_success [of _ ?t _ _ "[keyword ''+'', keyword ''-'']"]
    a b n r x
  show ?thesis by simp
qed

section \<open>Properties of zero-or-more\<close>

lemma repeats_Cons:
  assumes "repeats parser stream (v # vs) stream'"
  obtains mid where "parser stream = Some (Inr v, mid)" and "repeats parser mid vs stream'"
proof (cases "parser stream")
  case None
  with assms show ?thesis by simp
next
  case (Some r)
  obtain x mid where r: "r = (x, mid)" by (cases r)
  show ?thesis
  proof (cases x)
    case (Inl e)
    with assms Some r show ?thesis by simp
  next
    case (Inr v')
    with assms Some r that show ?thesis by simp
  qed
qed

lemma zero_or_more_loop_repeats:
  "repeats parser stream vs stream' \<Longrightarrow>
   zero_or_more_loop parser result stream = zero_or_more_loop parser (result @ vs) stream'"
proof (induction vs arbitrary: stream result)
  case Nil
  then show ?case by simp
next
  case (Cons v vs)
  from Cons.prems obtain mid where first: "parser stream = Some (Inr v, mid)"
    and rest: "repeats parser mid vs stream'"
    by (rule repeats_Cons)
  from first have "zero_or_more_loop parser result stream
      = zero_or_more_loop parser (result @ [v]) mid"
    by (subst zero_or_more_loop.simps) simp
  also from rest have "\<dots> = zero_or_more_loop parser ((result @ [v]) @ vs) stream'"
    by (rule Cons.IH)
  finally show ?case by simp
qed

lemma zero_or_more_loop_NoMatch:
  "parser stream = Some (Inl (NoMatch m), stream') \<Longrightarrow>
   zero_or_more_loop parser result stream = Some (Inr result, stream')"
  by (subst zero_or_more_loop.simps) simp

lemma zero_or_more_loop_EndOfInput:
  "parser stream = Some (Inl EndOfInput, stream') \<Longrightarrow>
   zero_or_more_loop parser result stream = Some (Inl EndOfInput, stream')"
  by (subst zero_or_more_loop.simps) simp

lemma zero_or_more_loop_stops:
  assumes ret: "zero_or_more_loop parser result stream = Some r"
  shows "stops parser result stream r"
proof (rule zero_or_more_loop.raw_induct [where P = stops, OF _ ret])
  fix loop :: "'a parser \<Rightarrow> 'a list \<Rightarrow> cursor \<Rightarrow> 'a list outcome option"
  fix parser result stream r
  assume IH: "\<And>parser result stream r. loop parser result stream = Some r \<Longrightarrow>
      stops parser result stream r"
    and eq: "(case parser stream of
        None \<Rightarrow> None
      | Some (Inl (NoMatch m), stream') \<Rightarrow> Some (Inr result, stream')
      | Some (Inl EndOfInput, stream') \<Rightarrow> Some (Inl EndOfInput, stream')
      | Some (Inr v, stream') \<Rightarrow> loop parser (result @ [v]) stream') = Some r"
  from eq obtain x mid where px: "parser stream = Some (x, mid)"
    by (auto split: option.splits)
  show "stops parser result stream r"
  proof (cases x)
    case (Inl e)
    show ?thesis
    proof (cases e)
      case (NoMatch m)
      with eq px Inl have "r = (Inr (result @ []), mid)" by simp
      moreover have "repeats parser stream [] stream" by simp
      ultimately show ?thesis
        unfolding stops_def using px Inl NoMatch by blast
    next
      case EndOfInput
      with eq px Inl have "r = (Inl EndOfInput, mid)" by simp
      moreover have "repeats parser stream [] stream" by simp
      ultimately show ?thesis
        unfolding stops_def using px Inl EndOfInput by blast
    qed
  next
    case (Inr v)
    with eq px have "loop parser (result @ [v]) mid = Some r" by simp
    then have "stops parser (result @ [v]) mid r" by (rule IH)
    then obtain vs final stream' where rep: "repeats parser mid vs final"
      and fin: "(\<exists>m. parser final = Some (Inl (NoMatch m), stream') \<and> r = (Inr ((result @ [v]) @ vs), stream'))
         \<or> (parser final = Some (Inl EndOfInput, stream') \<and> r = (Inl EndOfInput, stream'))"
      unfolding stops_def by blast
    from rep px Inr have "repeats parser stream (v # vs) final" by simp
    moreover from fin have "(\<exists>m. parser final = Some (Inl (NoMatch m), stream') \<and> r = (Inr (result @ (v # vs)), stream'))
         \<or> (parser final = Some (Inl EndOfInput, stream') \<and> r = (Inl EndOfInput, stream'))"
      by simp
    ultimately show ?thesis unfolding stops_def by blast
  qed
qed

text \<open>
  Claim C4. For every parser and cursor, zero-or-more never fails with NoMatch. When the
  parser, after succeeding some number of times (possibly none), fails with NoMatch,
  the results collected so far are returned as a success. When it fails with
  EndOfInput instead, zero-or-more fails with EndOfInput and the collected results are
  lost. A failure of zero-or-more is always such an EndOfInput of the parser.
\<close>

theorem zero_or_more_failures:
  "zero_or_more parser stream \<noteq> Some (Inl (NoMatch m), stream')
   \<and> (repeats parser stream vs final \<and> parser final = Some (Inl (NoMatch m), stream') \<longrightarrow>
        zero_or_more parser stream = Some (Inr vs, stream'))
   \<and> (repeats parser stream vs final \<and> parser final = Some (Inl EndOfInput, stream') \<longrightarrow>
        zero_or_more parser stream = Some (Inl EndOfInput, stream'))
   \<and> (zero_or_more parser stream = Some (Inl e, stream') \<longrightarrow>
        e = EndOfInput
        \<and> (\<exists>vs final. repeats parser stream vs final \<and> parser final = Some (Inl EndOfInput, stream')))"
proof (intro conjI impI)
  show "zero_or_more parser stream \<noteq> Some (Inl (NoMatch m), stream')"
  proof
    assume "zero_or_more parser stream = Some (Inl (NoMatch m), stream')"
    then have "stops parser [] stream (Inl (NoMatch m), stream')"
      unfolding zero_or_more_def by (rule zero_or_more_loop_stops)
    then show False by (auto simp: stops_def)
  qed
next
  assume "repeats parser stream vs final \<and> parser final = Some (Inl (NoMatch m), stream')"
  then show "zero_or_more parser stream = Some (Inr vs, stream')"
    by (simp add: zero_or_more_def zero_or_more_loop_repeats [of parser stream vs final]
        zero_or_more_loop_NoMatch)
next
  assume "repeats parser stream vs final \<and> parser final = Some (Inl EndOfInput, stream')"
  then show "zero_or_more parser stream = Some (Inl EndOfInput, stream')"
    by (simp add: zero_or_more_def zero_or_more_loop_repeats [of parser stream vs final]
        zero_or_more_loop_EndOfInput)
next
  assume "zero_or_more parser stream = Some (Inl e, stream')"
  then have *: "stops parser [] stream (Inl e, stream')"
    unfolding zero_or_more_def by (rule zero_or_more_loop_stops)
  then show "e = EndOfInput" by (auto simp: stops_def)
  from * show "\<exists>vs final. repeats parser stream vs final \<and> parser final = Some (Inl EndOfInput, stream')"
    by (auto simp: stops_def)
qed

theorem zero_or_more_failures_witness:
  "zero_or_more (keyword ''bla'') \<lparr>content = ''blabla'', offset = 0\<rparr>
     = Some (Inr [''bla'', ''bla''], \<lparr>content = ''blabla'', offset = 6\<rparr>)
   \<and> zero_or_more (\<lambda>s. Some (match s isdigit False)) \<lparr>content = ''12'', offset = 0\<rparr>
     = Some (Inl EndOfInput, \<lparr>content = ''12'', offset = 2\<rparr>)
   \<and> (\<exists>vs final. repeats (\<lambda>s. Some (match s isdigit False)) \<lparr>content = ''12'', offset = 0\<rparr> vs final
        \<and> match final isdigit False = (Inl EndOfInput, \<lparr>content = ''12'', offset = 2\<rparr>))"
proof -
  let ?k = "keyword ''bla''" and ?s = "\<lparr>content = ''blabla'', offset = 0\<rparr>"
  let ?d = "\<lambda>s. Some (match s isdigit False)" and ?t = "\<lparr>content = ''12'', offset = 0\<rparr>"
  have k: "repeats ?k ?s [''bla'', ''bla''] \<lparr>content = ''blabla'', offset = 6\<rparr>
      \<and> ?k \<lparr>content = ''blabla'', offset = 6\<rparr>
        = Some (Inl (NoMatch (Expected_to_match [] ''bla'')), \<lparr>content = ''blabla'', offset = 6\<rparr>)"
    by (simp add: cursor_defs lexical_defs)
  have d: "repeats ?d ?t [''1'', ''2''] \<lparr>content = ''12'', offset = 2\<rparr>
      \<and> ?d \<lparr>content = ''12'', offset = 2\<rparr> = Some (Inl EndOfInput, \<lparr>content = ''12'', offset = 2\<rparr>)"
    by (simp add: cursor_defs class_defs)
  note thm1 = zero_or_more_failures [of ?k ?s "Expected_to_match [] ''bla''"
      "\<lparr>content = ''blabla'', offset = 6\<rparr>" "[''bla'', ''bla'']" "\<lparr>content = ''blabla'', offset = 6\<rparr>"]
  note thm2 = zero_or_more_failures [of ?d ?t _ "\<lparr>content = ''12'', offset = 2\<rparr>" "[''1'', ''2'']"
      "\<lparr>content = ''12'', offset = 2\<rparr>" EndOfInput]
  from thm1 k have r1: "zero_or_more ?k ?s = Some (Inr [''bla'', ''bla''], \<lparr>content = ''blabla'', offset = 6\<rparr>)"
    by blast
  from thm2 d have r2: "zero_or_more ?d ?t = Some (Inl EndOfInput, \<lparr>content = ''12'', offset = 2\<rparr>)"
    by blast
  with thm2 have "\<exists>vs final. repeats ?d ?t vs final
      \<and> ?d final = Some (Inl EndOfInput, \<lparr>content = ''12'', offset = 2\<rparr>)"
    by blast
  with r1 r2 show ?thesis by simp
qed

section \<open>Properties of one-or-more\<close>

text \<open>
  Claim C10. For every parser, also one that never returns, a call of one-or-more returns
  at once: the result is the generator, and the cursor is the one passed in. So the
  optional combinator around it always returns the generator and never the absent
  marker. The parser runs when the generator is consumed, and if its first call then
  fails, with either failure, the consumption fails with NoMatch,
  \<^verbatim>\<open>Expected one or more tokens\<close>.
\<close>

theorem one_or_more_lazy:
  "one_or_more parser stream = Some (Inr (Generator parser), stream)
   \<and> maybe (one_or_more parser) stream = Some (Inr (Some (Generator parser)), stream)
   \<and> (parser stream = Some (Inl e, stream') \<longrightarrow>
        list_generator (Generator parser) stream
          = Some (Inl (NoMatch (Text ''Expected one or more tokens'')), stream'))"
  by (simp add: one_or_more_def maybe_def one_or_more_loop.simps [of parser 0 "[]" stream])

theorem one_or_more_lazy_witness:
  "one_or_more (\<lambda>s. None :: int outcome option) \<lparr>content = ''x'', offset = 0\<rparr>
     = Some (Inr (Generator (\<lambda>s. None)), \<lparr>content = ''x'', offset = 0\<rparr>)
   \<and> maybe (one_or_more number) \<lparr>content = ''x'', offset = 0\<rparr>
     = Some (Inr (Some (Generator number)), \<lparr>content = ''x'', offset = 0\<rparr>)
   \<and> list_generator (Generator number) \<lparr>content = ''x'', offset = 0\<rparr>
     = Some (Inl (NoMatch (Text ''Expected one or more tokens'')), \<lparr>content = ''x'', offset = 0\<rparr>)"
proof -
  let ?s = "\<lparr>content = ''x'', offset = 0\<rparr>"
  have no: "number ?s = Some (Inl (NoMatch (Could_not_match ''x'')), ?s)"
    by (simp add: cursor_defs class_defs lexical_defs)
  from one_or_more_lazy [of "\<lambda>s. None :: int outcome option" ?s]
    one_or_more_lazy [of number ?s "NoMatch (Could_not_match ''x'')" ?s] no
  show ?thesis by simp
qed

section \<open>Properties of the expression grammar\<close>

text \<open>
  Claim C9. On the text \<^verbatim>\<open>1 + 2\<close> from offset 0 the expression parser succeeds with the
  nested sequence \<^verbatim>\<open>[1, ' ', [['+', ' ', 2]]]\<close>, the whole text consumed; nothing is
  evaluated to 3. This holds whatever room the stack has below the call.
\<close>

theorem expression_one_plus_two:
  "expression (Suc limit) \<lparr>content = ''1 + 2'', offset = 0\<rparr>
     = Some (Inr (Seq [Num 1, Str '' '', Seq [Seq [Str ''+'', Str '' '', Num 2]]]),
             \<lparr>content = ''1 + 2'', offset = 5\<rparr>)"
  by (simp add: lifted_def sum_of_def value_of_def tagged_def zero_or_more_def
      zero_or_more_loop.simps cursor_defs class_defs lexical_defs)

lemma match_content: "match stream predicate peek = (r, stream') \<Longrightarrow> content stream' = content stream"
  by (auto simp: match_def read_def tell_def seek_def Let_def split: if_splits)

lemma match_NoMatch_unchanged:
  "match stream predicate peek = (Inl (NoMatch m), stream') \<Longrightarrow> stream' = stream"
  by (auto simp: match_def read_def tell_def seek_def Let_def split: if_splits)

lemma match_EndOfInput_unchanged:
  "match stream predicate peek = (Inl EndOfInput, stream') \<Longrightarrow> stream' = stream"
  by (auto simp: match_def read_def tell_def seek_def Let_def split: if_splits)

lemma match_twice_no_EndOfInput:
  "match stream predicate peek = (Inl (NoMatch m), stream') \<Longrightarrow>
   match stream predicate' peek' \<noteq> (Inl EndOfInput, stream'')"
  by (auto simp: match_def read_def tell_def seek_def Let_def split: if_splits)

lemma number_loop_content:
  "number_loop joined stream = (r, stream') \<Longrightarrow> content stream' = content stream"
proof (induction joined stream arbitrary: r stream' rule: number_loop.induct)
  case (1 joined stream)
  obtain x mid where m: "match stream isdigit False = (x, mid)" by (cases "match stream isdigit False")
  then have mid: "content mid = content stream" by (rule match_content)
  show ?case
  proof (cases x)
    case (Inr c)
    with m "1.prems" have "number_loop (joined @ c) mid = (r, stream')"
      by (simp add: number_loop.simps [of joined stream])
    with "1.IH" [OF m [symmetric] Inr] mid show ?thesis by simp
  next
    case (Inl e)
    show ?thesis
    proof (cases e)
      case EndOfInput
      with Inl m "1.prems" mid show ?thesis
        by (simp add: number_loop.simps [of joined stream])
    next
      case (NoMatch msg)
      obtain y fin where p: "match mid isspace True = (y, fin)" by (cases "match mid isspace True")
      then have "content fin = content mid" by (rule match_content)
      with NoMatch Inl m p "1.prems" mid show ?thesis
        by (cases y) (auto simp: number_loop.simps [of joined stream])
    qed
  qed
qed

lemma number_loop_no_EndOfInput:
  "number_loop joined stream \<noteq> (Inl EndOfInput, stream')"
proof (induction joined stream rule: number_loop.induct)
  case (1 joined stream)
  obtain x mid where m: "match stream isdigit False = (x, mid)" by (cases "match stream isdigit False")
  show ?case
  proof (cases x)
    case (Inr c)
    with m "1.IH" [OF m [symmetric] Inr] show ?thesis
      by (simp add: number_loop.simps [of joined stream])
  next
    case (Inl e)
    show ?thesis
    proof (cases e)
      case EndOfInput
      with Inl m show ?thesis
        by (simp add: number_loop.simps [of joined stream])
    next
      case (NoMatch msg)
      with Inl m have "mid = stream" by (simp add: match_NoMatch_unchanged)
      obtain y fin where p: "match mid isspace True = (y, fin)" by (cases "match mid isspace True")
      with m Inl NoMatch \<open>mid = stream\<close> have "y \<noteq> Inl EndOfInput"
        using match_twice_no_EndOfInput [of stream isdigit False msg stream isspace True fin] by auto
      with NoMatch Inl m p show ?thesis
        by (cases y) (auto simp: number_loop.simps [of joined stream])
    qed
  qed
qed

lemma number_failure_unchanged:
  assumes "number stream = Some (Inl e, stream')"
  shows "stream' = stream"
proof -
  obtain x mid where first: "match stream isdigit False = (x, mid)"
    by (cases "match stream isdigit False")
  obtain y fin where res: "number_result stream = (y, fin)"
    by (cases "number_result stream")
  have fin: "content fin = content stream"
  proof (cases x)
    case (Inl e')
    with first res show ?thesis by (auto simp: number_result_def dest: match_content)
  next
    case (Inr c)
    with first res have "number_loop c mid = (y, fin)" by (simp add: number_result_def)
    then have "content fin = content mid" by (rule number_loop_content)
    with first show ?thesis by (simp add: match_content)
  qed
  have eof: "y = Inl EndOfInput \<Longrightarrow> fin = stream"
  proof (cases x)
    case (Inl e')
    assume "y = Inl EndOfInput"
    with Inl first res show ?thesis
      by (auto simp: number_result_def dest: match_EndOfInput_unchanged)
  next
    case (Inr c)
    assume "y = Inl EndOfInput"
    with Inr first res have "number_loop c mid = (Inl EndOfInput, fin)" by (simp add: number_result_def)
    then show ?thesis by (simp add: number_loop_no_EndOfInput)
  qed
  show ?thesis
  proof (cases e)
    case EndOfInput
    with assms res eof show ?thesis
      by (auto simp: number_def rollback_def number_parse_def
          split: sum.splits if_splits failure.splits)
  next
    case (NoMatch msg)
    with assms res have "stream' = fin\<lparr>offset := offset stream\<rparr>"
      by (auto simp: number_def rollback_def number_parse_def tell_def seek_def
          split: sum.splits if_splits failure.splits)
    with fin show ?thesis by simp
  qed
qed

lemma value_of_number_fails:
  assumes "number stream = Some (Inl e, stream')"
  shows "value_of f stream = alternation [f] stream"
proof -
  from assms have "stream' = stream" by (rule number_failure_unchanged)
  with assms show ?thesis by (simp add: value_of_def tagged_def lifted_def)
qed

lemma number_returns: "\<exists>r. number stream = Some r"
  by (simp add: number_def rollback_def number_parse_def split: prod.splits sum.splits failure.splits)

text \<open>
  Where the integer parser fails, the cycle is entered again and again on the same cursor
  until the stack has no room left; the exception raised there is swallowed by the choice
  in \<^verbatim>\<open>value\<close>, and so is the failure of each call on the way back.
\<close>

lemma expression_number_fails:
  assumes "number stream = Some (Inl e, stream')"
  shows "expression (Suc limit) stream
    = Some (Inl (Failure (NoMatch (Text ''Exhausted all parsers''))), stream)"
proof (induction limit)
  case 0
  from assms have "value_of (expression 0) stream = alternation [expression 0] stream"
    by (rule value_of_number_fails)
  then show ?case by (simp add: lifted_def sum_of_def tagged_def)
next
  case (Suc limit)
  from assms have "value_of (expression (Suc limit)) stream
      = alternation [expression (Suc limit)] stream"
    by (rule value_of_number_fails)
  with Suc.IH have "value_of (expression (Suc limit)) stream
      = Some (Inl (NoMatch (Text ''Exhausted all parsers'')), stream)"
    by simp
  then show ?case
    by (simp add: expression.simps(2) [of "Suc limit"] lifted_def sum_of_def tagged_def
        del: expression.simps)
qed

text \<open>
  The parsers of the grammar only move forward, and one round of the repetition in
  \<^verbatim>\<open>sum\<close> consumes its operator, so the repetition ends; the recursion ends with the
  stack.
\<close>

lemma forwardI:
  "(\<And>s r s'. p s = Some (r, s') \<Longrightarrow> content s' = content s \<and> offset s \<le> offset s') \<Longrightarrow> forward p"
  by (simp add: forward_def)

lemma forwardD:
  "forward p \<Longrightarrow> p s = Some (r, s') \<Longrightarrow> content s' = content s \<and> offset s \<le> offset s'"
  by (simp add: forward_def)

lemma match_forward:
  "match s predicate peek = (r, s') \<Longrightarrow> content s' = content s \<and> offset s \<le> offset s'"
  by (auto simp: cursor_defs split: if_splits)

lemma number_loop_forward:
  "number_loop joined s = (r, s') \<Longrightarrow> content s' = content s \<and> offset s \<le> offset s'"
proof (induction joined s arbitrary: r s' rule: number_loop.induct)
  case (1 joined stream)
  obtain x mid where m: "match stream isdigit False = (x, mid)"
    by (cases "match stream isdigit False")
  then have mid: "content mid = content stream \<and> offset stream \<le> offset mid"
    by (rule match_forward)
  show ?case
  proof (cases x)
    case (Inr c)
    with m "1.prems" have "number_loop (joined @ c) mid = (r, s')"
      by (simp add: number_loop.simps [of joined stream])
    with "1.IH" [OF m [symmetric] Inr] mid show ?thesis by fastforce
  next
    case (Inl e)
    show ?thesis
    proof (cases e)
      case EndOfInput
      with Inl m "1.prems" mid show ?thesis
        by (simp add: number_loop.simps [of joined stream])
    next
      case (NoMatch msg)
      obtain y fin where p: "match mid isspace True = (y, fin)"
        by (cases "match mid isspace True")
      then have "content fin = content mid \<and> offset mid \<le> offset fin" by (rule match_forward)
      with NoMatch Inl m p "1.prems" mid show ?thesis
        by (cases y) (auto simp: number_loop.simps [of joined stream])
    qed
  qed
qed

lemma whitespace_loop_forward:
  "whitespace_loop joined s = (r, s') \<Longrightarrow> content s' = content s \<and> offset s \<le> offset s'"
proof (induction joined s arbitrary: r s' rule: whitespace_loop.induct)
  case (1 joined stream)
  obtain x mid where m: "match stream isspace False = (x, mid)"
    by (cases "match stream isspace False")
  then have mid: "content mid = content stream \<and> offset stream \<le> offset mid"
    by (rule match_forward)
  show ?case
  proof (cases x)
    case (Inr c)
    with m "1.prems" have "whitespace_loop (joined @ c) mid = (r, s')"
      by (simp add: whitespace_loop.simps [of joined stream])
    with "1.IH" [OF m [symmetric] Inr] mid show ?thesis by fastforce
  next
    case (Inl e)
    with m "1.prems" mid show ?thesis
      by (simp add: whitespace_loop.simps [of joined stream])
  qed
qed

lemma rollback_forward: "forward p \<Longrightarrow> forward (rollback p)"
  unfolding forward_def rollback_def tell_def seek_def
  by (auto split: option.splits sum.splits failure.splits prod.splits)

lemma number_forward: "forward number"
proof -
  have "forward number_parse"
  proof (rule forwardI)
    fix s r s'
    assume a: "number_parse s = Some (r, s')"
    obtain x mid where first: "match s isdigit False = (x, mid)"
      by (cases "match s isdigit False")
    then have mid: "content mid = content s \<and> offset s \<le> offset mid" by (rule match_forward)
    obtain y fin where res: "number_result s = (y, fin)" by (cases "number_result s")
    have fin: "content fin = content s \<and> offset s \<le> offset fin"
    proof (cases x)
      case (Inl e)
      with first res mid show ?thesis by (simp add: number_result_def)
    next
      case (Inr c)
      with first res have "number_loop c mid = (y, fin)" by (simp add: number_result_def)
      then have "content fin = content mid \<and> offset mid \<le> offset fin"
        by (rule number_loop_forward)
      with mid show ?thesis by simp
    qed
    from a res have "s' = fin"
      by (auto simp: number_parse_def split: sum.splits if_splits)
    with fin show "content s' = content s \<and> offset s \<le> offset s'" by simp
  qed
  then show ?thesis unfolding number_def by (rule rollback_forward)
qed

lemma whitespace_required_forward:
  "whitespace_required n joined s = (r, s') \<Longrightarrow> content s' = content s \<and> offset s \<le> offset s'"
proof (induction n arbitrary: joined s)
  case 0
  then show ?case by simp
next
  case (Suc n)
  obtain x mid where m: "match s isspace False = (x, mid)"
    by (cases "match s isspace False")
  then have mid: "content mid = content s \<and> offset s \<le> offset mid" by (rule match_forward)
  show ?case
  proof (cases x)
    case (Inl e)
    with m Suc.prems mid show ?thesis by simp
  next
    case (Inr c)
    with m Suc.prems have "whitespace_required n (joined @ c) mid = (r, s')" by simp
    from Suc.IH [OF this] mid show ?thesis by simp
  qed
qed

lemma whitespace_forward: "forward (whitespace n)"
proof -
  have "forward (whitespace_parse n)"
  proof (rule forwardI)
    fix s r s'
    assume a: "whitespace_parse n s = Some (r, s')"
    obtain x mid where req: "whitespace_required n [] s = (x, mid)"
      by (cases "whitespace_required n [] s")
    then have mid: "content mid = content s \<and> offset s \<le> offset mid"
      by (rule whitespace_required_forward)
    show "content s' = content s \<and> offset s \<le> offset s'"
    proof (cases x)
      case (Inl e)
      with a req mid show ?thesis by (simp add: whitespace_parse_def)
    next
      case (Inr joined)
      with a req have "whitespace_loop joined mid = (r, s')" by (simp add: whitespace_parse_def)
      then have "content s' = content mid \<and> offset mid \<le> offset s'"
        by (rule whitespace_loop_forward)
      with mid show ?thesis by simp
    qed
  qed
  then show ?thesis unfolding whitespace_def by (rule rollback_forward)
qed

lemma keyword_forward: "forward (keyword v)"
proof -
  have "forward (keyword_parse v)"
    by (rule forwardI) (auto simp: keyword_parse_def read_def Let_def split: if_splits)
  then show ?thesis unfolding keyword_def by (rule rollback_forward)
qed

lemma tagged_forward: "forward p \<Longrightarrow> forward (tagged tag p)"
  unfolding forward_def tagged_def
  by (auto split: option.splits sum.splits prod.splits)

lemma lifted_forward: "forward p \<Longrightarrow> forward (lifted p)"
  unfolding forward_def lifted_def
  by (auto split: option.splits sum.splits prod.splits)

lemma concatenation_forward:
  "list_all forward ps \<Longrightarrow> forward (concatenation ps)"
proof (induction ps)
  case Nil
  show ?case by (simp add: forward_def)
next
  case (Cons p ps)
  then have p: "forward p" and ps: "forward (concatenation ps)" by simp_all
  show ?case
  proof (rule forwardI)
    fix s r s'
    assume a: "concatenation (p # ps) s = Some (r, s')"
    then obtain x mid where px: "p s = Some (x, mid)"
      by (cases "p s") auto
    with p have mid: "content mid = content s \<and> offset s \<le> offset mid" by (rule forwardD)
    show "content s' = content s \<and> offset s \<le> offset s'"
    proof (cases x)
      case (Inl e)
      with a px mid show ?thesis by simp
    next
      case (Inr v)
      with a px obtain y where "concatenation ps mid = Some (y, s')"
        by (cases "concatenation ps mid") (auto split: sum.splits)
      with ps have "content s' = content mid \<and> offset mid \<le> offset s'" by (rule forwardD)
      with mid show ?thesis by simp
    qed
  qed
qed

lemma alternation_forward:
  "list_all forward ps \<Longrightarrow> forward (alternation ps)"
proof (induction ps)
  case Nil
  show ?case by (simp add: forward_def)
next
  case (Cons p ps)
  then have p: "forward p" and ps: "forward (alternation ps)" by simp_all
  show ?case
  proof (rule forwardI)
    fix s r s'
    assume a: "alternation (p # ps) s = Some (r, s')"
    then obtain x mid where px: "p s = Some (x, mid)"
      by (cases "p s") auto
    with p have mid: "content mid = content s \<and> offset s \<le> offset mid" by (rule forwardD)
    show "content s' = content s \<and> offset s \<le> offset s'"
    proof (cases x)
      case (Inr v)
      with a px mid show ?thesis by simp
    next
      case (Inl e)
      with a px have "alternation ps mid = Some (r, s')" by simp
      with ps have "content s' = content mid \<and> offset mid \<le> offset s'" by (rule forwardD)
      with mid show ?thesis by simp
    qed
  qed
qed

lemma repeats_forward:
  "forward p \<Longrightarrow> repeats p s vs s' \<Longrightarrow> content s' = content s \<and> offset s \<le> offset s'"
proof (induction vs arbitrary: s)
  case Nil
  then show ?case by simp
next
  case (Cons v vs)
  from Cons.prems(2) obtain mid where first: "p s = Some (Inr v, mid)"
    and rest: "repeats p mid vs s'"
    by (rule repeats_Cons)
  from Cons.prems(1) first have "content mid = content s \<and> offset s \<le> offset mid"
    by (rule forwardD)
  moreover from Cons.prems(1) rest have "content s' = content mid \<and> offset mid \<le> offset s'"
    by (rule Cons.IH)
  ultimately show ?case by simp
qed

lemma zero_or_more_forward:
  assumes p: "forward p"
  shows "forward (zero_or_more p)"
proof (rule forwardI)
  fix s r s'
  assume "zero_or_more p s = Some (r, s')"
  then have "stops p [] s (r, s')"
    unfolding zero_or_more_def by (rule zero_or_more_loop_stops)
  then obtain vs final x where rep: "repeats p s vs final" and fin: "p final = Some (x, s')"
    unfolding stops_def by auto
  from p rep have "content final = content s \<and> offset s \<le> offset final"
    by (rule repeats_forward)
  moreover from p fin have "content s' = content final \<and> offset final \<le> offset s'"
    by (rule forwardD)
  ultimately show "content s' = content s \<and> offset s \<le> offset s'" by simp
qed

lemma value_of_forward: "forward f \<Longrightarrow> forward (value_of f)"
  unfolding value_of_def
  by (rule alternation_forward) (simp add: lifted_forward tagged_forward number_forward)

lemma operator_forward:
  "forward f \<Longrightarrow> forward (tagged Seq (concatenation
     [tagged Str (alternation [keyword ''+'', keyword ''-'']), tagged Str (whitespace 0),
      value_of f]))"
  by (intro tagged_forward concatenation_forward)
     (simp add: tagged_forward alternation_forward keyword_forward whitespace_forward
       value_of_forward)

lemma sum_of_forward: "forward f \<Longrightarrow> forward (sum_of f)"
  unfolding sum_of_def
  by (intro tagged_forward concatenation_forward)
     (simp add: tagged_forward whitespace_forward value_of_forward zero_or_more_forward
       operator_forward)

lemma expression_forward: "forward (expression limit)"
proof (induction limit)
  case 0
  show ?case by (simp add: forward_def)
next
  case (Suc limit)
  then have "forward (lifted (sum_of (expression limit)))"
    by (intro lifted_forward sum_of_forward)
  then show ?case by (simp add: forward_def)
qed

lemma terminatesD: "terminates p \<Longrightarrow> \<exists>r. p s = Some r"
  by (simp add: terminates_def)

lemma number_terminates: "terminates number"
  unfolding terminates_def by (intro allI number_returns)

lemma keyword_terminates: "terminates (keyword v)"
  by (simp add: terminates_def keyword_def keyword_parse_def rollback_def Let_def
      split: prod.splits sum.splits failure.splits)

lemma whitespace_terminates: "terminates (whitespace n)"
  by (simp add: terminates_def whitespace_def whitespace_parse_def rollback_def
      split: prod.splits sum.splits failure.splits)

lemma tagged_terminates: "terminates p \<Longrightarrow> terminates (tagged tag p)"
  unfolding terminates_def tagged_def
proof
  fix s
  assume "\<forall>s. \<exists>r. p s = Some r"
  then obtain r where "p s = Some r" by blast
  then show "\<exists>r. (case p s of None \<Rightarrow> None
      | Some (Inl e, stream') \<Rightarrow> Some (Inl e, stream')
      | Some (Inr v, stream') \<Rightarrow> Some (Inr (tag v), stream')) = Some r"
    by (cases r) (auto split: sum.splits)
qed

lemma lifted_terminates: "terminates p \<Longrightarrow> terminates (lifted p)"
  unfolding terminates_def lifted_def
proof
  fix s
  assume "\<forall>s. \<exists>r. p s = Some r"
  then obtain r where "p s = Some r" by blast
  then show "\<exists>r. (case p s of None \<Rightarrow> None
      | Some (Inl e, stream') \<Rightarrow> Some (Inl (Failure e), stream')
      | Some (Inr v, stream') \<Rightarrow> Some (Inr v, stream')) = Some r"
    by (cases r) (auto split: sum.splits)
qed

lemma concatenation_terminates:
  "list_all terminates ps \<Longrightarrow> terminates (concatenation ps)"
proof (induction ps)
  case Nil
  show ?case by (simp add: terminates_def)
next
  case (Cons p ps)
  then have p: "terminates p" and ps: "terminates (concatenation ps)" by simp_all
  show ?case
    unfolding terminates_def
  proof
    fix s
    from p obtain x mid where px: "p s = Some (x, mid)"
      using terminatesD [of p s] by auto
    from ps obtain y fin where py: "concatenation ps mid = Some (y, fin)"
      using terminatesD [of "concatenation ps" mid] by auto
    from px py show "\<exists>r. concatenation (p # ps) s = Some r"
      by (cases x; cases y) simp_all
  qed
qed

lemma alternation_terminates:
  "list_all terminates ps \<Longrightarrow> terminates (alternation ps)"
proof (induction ps)
  case Nil
  show ?case by (simp add: terminates_def)
next
  case (Cons p ps)
  then have p: "terminates p" and ps: "terminates (alternation ps)" by simp_all
  show ?case
    unfolding terminates_def
  proof
    fix s
    from p obtain x mid where px: "p s = Some (x, mid)"
      using terminatesD [of p s] by auto
    from ps obtain r where "alternation ps mid = Some r"
      using terminatesD [of "alternation ps" mid] by auto
    with px show "\<exists>r. alternation (p # ps) s = Some r"
      by (cases x) simp_all
  qed
qed

lemma zero_or_more_loop_returns:
  assumes p: "terminates p" and progress: "progresses p"
  shows "\<exists>r. zero_or_more_loop p result s = Some r"
proof (induction "length (content s) - offset s" arbitrary: s result rule: less_induct)
  case less
  from p obtain x mid where px: "p s = Some (x, mid)"
    using terminatesD [of p s] by auto
  show ?case
  proof (cases x)
    case (Inl e)
    with px show ?thesis
      by (cases e) (simp_all add: zero_or_more_loop.simps [of p result s])
  next
    case (Inr v)
    with px progress have "content mid = content s" and "offset s < offset mid"
      and "offset s < length (content s)"
      by (simp_all add: progresses_def)
    then have "length (content mid) - offset mid < length (content s) - offset s"
      by (simp add: diff_less_mono2)
    then obtain r where "zero_or_more_loop p (result @ [v]) mid = Some r"
      using less by blast
    with px Inr show ?thesis by (simp add: zero_or_more_loop.simps [of p result s])
  qed
qed

lemma zero_or_more_terminates: "terminates p \<Longrightarrow> progresses p \<Longrightarrow> terminates (zero_or_more p)"
  unfolding terminates_def [of "zero_or_more p"] zero_or_more_def
  by (intro allI zero_or_more_loop_returns)

lemma keyword_success:
  assumes "keyword v s = Some (Inr x, s')"
  shows "take (length v) (drop (offset s) (content s)) = v \<and> offset s' = offset s + length v
    \<and> content s' = content s"
proof -
  from assms have eq: "take (length v) (drop (offset s) (content s)) = v"
    and s': "s' = s\<lparr>offset := offset s + length (take (length v) (drop (offset s) (content s)))\<rparr>"
    by (auto simp: keyword_def keyword_parse_def rollback_def read_def Let_def
        split: if_splits)
  from eq have "length (take (length v) (drop (offset s) (content s))) = length v" by simp
  with eq s' show ?thesis by (simp del: length_take)
qed

lemma keyword_failure:
  "keyword v s = Some (Inl e, s') \<Longrightarrow> s' = s"
  by (auto simp: keyword_def keyword_parse_def rollback_def read_def tell_def seek_def Let_def
      split: if_splits)

lemma keyword_progress:
  assumes "v \<noteq> []" and "keyword v s = Some (Inr x, s')"
  shows "content s' = content s \<and> offset s < offset s' \<and> offset s < length (content s)"
proof -
  from assms(2) have k: "take (length v) (drop (offset s) (content s)) = v"
    "offset s' = offset s + length v" "content s' = content s"
    by (simp_all add: keyword_success)
  from k(1) assms(1) have "drop (offset s) (content s) \<noteq> []" by auto
  then have "offset s < length (content s)" by simp
  with k assms(1) show ?thesis by simp
qed

lemma sign_progress:
  assumes "alternation [keyword ''+'', keyword ''-''] s = Some (Inr x, s')"
  shows "content s' = content s \<and> offset s < offset s' \<and> offset s < length (content s)"
proof -
  obtain y mid where plus: "keyword ''+'' s = Some (y, mid)"
    using terminatesD [OF keyword_terminates, of "''+''" s] by auto
  show ?thesis
  proof (cases y)
    case (Inr v)
    with plus assms have "keyword ''+'' s = Some (Inr v, s')" by simp
    then show ?thesis by (intro keyword_progress [of "''+''"]) simp_all
  next
    case (Inl e)
    with plus have "mid = s" by (simp add: keyword_failure)
    obtain z fin where minus: "keyword ''-'' s = Some (z, fin)"
      using terminatesD [OF keyword_terminates, of "''-''" s] by auto
    from assms plus Inl \<open>mid = s\<close> minus have "keyword ''-'' s = Some (Inr x, s')"
      by (cases z) simp_all
    then show ?thesis by (intro keyword_progress [of "''-''"]) simp_all
  qed
qed

lemma operator_progresses:
  assumes f: "forward f"
  shows "progresses (tagged Seq (concatenation
     [tagged Str (alternation [keyword ''+'', keyword ''-'']), tagged Str (whitespace 0),
      value_of f]))"
  unfolding progresses_def
proof (intro allI impI)
  fix s v s'
  let ?sign = "alternation [keyword ''+'', keyword ''-'']"
  let ?rest = "concatenation [tagged Str (whitespace 0), value_of f]"
  assume a: "tagged Seq (concatenation [tagged Str ?sign, tagged Str (whitespace 0), value_of f]) s
      = Some (Inr v, s')"
  then obtain x mid where sign: "?sign s = Some (Inr x, mid)"
    by (auto simp: tagged_def split: option.splits sum.splits)
  then have mid: "content mid = content s \<and> offset s < offset mid \<and> offset s < length (content s)"
    by (rule sign_progress)
  from a sign obtain y where rest: "?rest mid = Some (y, s')"
    by (auto simp: tagged_def split: option.splits sum.splits)
  have "forward ?rest"
    by (rule concatenation_forward)
       (simp add: tagged_forward whitespace_forward value_of_forward f)
  from this rest have "content s' = content mid \<and> offset mid \<le> offset s'" by (rule forwardD)
  with mid show "content s' = content s \<and> offset s < offset s' \<and> offset s < length (content s)"
    by simp
qed

lemma value_of_terminates: "terminates f \<Longrightarrow> terminates (value_of f)"
  unfolding value_of_def
  by (rule alternation_terminates) (simp add: lifted_terminates tagged_terminates number_terminates)

lemma sum_of_terminates:
  assumes "terminates f" and "forward f"
  shows "terminates (sum_of f)"
proof -
  let ?operator = "tagged Seq (concatenation
     [tagged Str (alternation [keyword ''+'', keyword ''-'']), tagged Str (whitespace 0),
      value_of f])"
  have "terminates ?operator"
    by (intro tagged_terminates concatenation_terminates)
       (simp add: tagged_terminates alternation_terminates keyword_terminates whitespace_terminates
         value_of_terminates assms(1))
  moreover from assms(2) have "progresses ?operator" by (rule operator_progresses)
  ultimately have "terminates (zero_or_more ?operator)" by (rule zero_or_more_terminates)
  then show ?thesis
    unfolding sum_of_def
    by (intro tagged_terminates concatenation_terminates)
       (simp add: tagged_terminates whitespace_terminates value_of_terminates assms(1))
qed

lemma expression_terminates: "terminates (expression limit)"
proof (induction limit)
  case 0
  show ?case by (simp add: terminates_def)
next
  case (Suc limit)
  then have "terminates (lifted (sum_of (expression limit)))"
    by (intro lifted_terminates sum_of_terminates expression_forward)
  then show ?case by (simp add: terminates_def)
qed

text \<open>Every call of the expression parser returns, whatever the bound and the stream.\<close>

lemma expression_returns: "\<exists>r. expression limit stream = Some r"
  using expression_terminates [of limit] by (simp add: terminates_def)

text \<open>
  The same happens below a successful parse. On \<^verbatim>\<open>1 + \<close> the operand after the operator
  is missing: \<^verbatim>\<open>value\<close> exhausts the stack there and fails with NoMatch, which ends the
  repetition, and the expression parser returns what it has, with the operator and the
  white space after it consumed.
\<close>

lemma value_of_exhausted:
  assumes "number stream = Some (Inl e, stream')"
  shows "value_of (expression limit) stream
    = Some (Inl (NoMatch (Text ''Exhausted all parsers'')), stream)"
proof (cases limit)
  case 0
  with value_of_number_fails [OF assms, of "expression 0"] show ?thesis by simp
next
  case (Suc n)
  with value_of_number_fails [OF assms, of "expression (Suc n)"]
    expression_number_fails [OF assms, of n]
  show ?thesis by (simp del: expression.simps)
qed

lemma expression_dangling_operator:
  "expression (Suc limit) \<lparr>content = ''1 + '', offset = 0\<rparr>
     = Some (Inr (Seq [Num 1, Str '' '', Seq []]), \<lparr>content = ''1 + '', offset = 4\<rparr>)"
proof -
  have "number \<lparr>content = ''1 + '', offset = 4\<rparr>
      = Some (Inl EndOfInput, \<lparr>content = ''1 + '', offset = 4\<rparr>)"
    by (simp add: cursor_defs class_defs lexical_defs)
  then have v: "value_of (expression limit) \<lparr>content = ''1 + '', offset = 4\<rparr>
      = Some (Inl (NoMatch (Text ''Exhausted all parsers'')), \<lparr>content = ''1 + '', offset = 4\<rparr>)"
    by (rule value_of_exhausted)
  then have v': "value_of (expression limit) \<lparr>content = ''1 + '', offset = Suc (Suc (Suc (Suc 0)))\<rparr>
      = Some (Inl (NoMatch (Text ''Exhausted all parsers'')), \<lparr>content = ''1 + '', offset = 4\<rparr>)"
    by (simp add: eval_nat_numeral)
  have n: "value_of (expression limit) \<lparr>content = ''1 + '', offset = 0\<rparr>
      = Some (Inr (Num 1), \<lparr>content = ''1 + '', offset = 1\<rparr>)"
    by (simp add: value_of_def lifted_def tagged_def cursor_defs class_defs lexical_defs)
  show ?thesis
    by (simp add: lifted_def sum_of_def tagged_def zero_or_more_def zero_or_more_loop.simps
        n v' cursor_defs lexical_defs class_defs)
qed

text \<open>
  Claim C3, as stated: there is a text, such as \<^verbatim>\<open>a\<close>, on which the expression parser
  neither succeeds nor raises a failure. The recursion is not without end: with the
  interpreter's default of 1000 for the bound, the call on \<^verbatim>\<open>a\<close> from offset 0 raises the
  NoMatch of the choice combinator.
\<close>

theorem expression_raises_counterexample:
  "expression 1000 \<lparr>content = ''a'', offset = 0\<rparr>
     = Some (Inl (Failure (NoMatch (Text ''Exhausted all parsers''))),
             \<lparr>content = ''a'', offset = 0\<rparr>)"
proof -
  have "number \<lparr>content = ''a'', offset = 0\<rparr>
      = Some (Inl (NoMatch (Could_not_match ''a'')), \<lparr>content = ''a'', offset = 0\<rparr>)"
    by (simp add: cursor_defs class_defs lexical_defs)
  from expression_number_fails [OF this, of 999] show ?thesis by simp
qed

text \<open>
  Claim C3, amended: on the text \<^verbatim>\<open>a\<close> from offset 0 the integer parser fails and leaves the
  cursor as it was, the choice in \<^verbatim>\<open>value\<close> goes on to its second alternative on that same
  cursor, whatever callable stands there, and that alternative is the expression parser
  again: the cycle is entered at the same offset until the stack has no room, where the
  call raises \<^verbatim>\<open>RecursionError\<close>. The choice swallows it, and the call from the main program
  ends with NoMatch, \<^verbatim>\<open>Exhausted all parsers\<close>, whatever the bound. On no text does the
  expression parser fail to return.
\<close>

theorem expression_recursion_exhausted:
  "number \<lparr>content = ''a'', offset = 0\<rparr>
     = Some (Inl (NoMatch (Could_not_match ''a'')), \<lparr>content = ''a'', offset = 0\<rparr>)
   \<and> (\<forall>f. value_of f \<lparr>content = ''a'', offset = 0\<rparr>
          = alternation [f] \<lparr>content = ''a'', offset = 0\<rparr>)
   \<and> expression 0 \<lparr>content = ''a'', offset = 0\<rparr>
     = Some (Inl RecursionError, \<lparr>content = ''a'', offset = 0\<rparr>)
   \<and> expression (Suc limit) \<lparr>content = ''a'', offset = 0\<rparr>
     = Some (Inl (Failure (NoMatch (Text ''Exhausted all parsers''))),
             \<lparr>content = ''a'', offset = 0\<rparr>)
   \<and> (\<forall>stream. \<exists>r. expression limit stream = Some r)"
proof -
  let ?s = "\<lparr>content = ''a'', offset = 0\<rparr>"
  have n: "number ?s = Some (Inl (NoMatch (Could_not_match ''a'')), ?s)"
    by (simp add: cursor_defs class_defs lexical_defs)
  then have v: "\<forall>f. value_of f ?s = alternation [f] ?s"
    by (simp add: value_of_number_fails)
  from n have "expression (Suc limit) ?s
      = Some (Inl (Failure (NoMatch (Text ''Exhausted all parsers''))), ?s)"
    by (rule expression_number_fails)
  with n v expression_returns [of limit] show ?thesis by simp
qed

end
